theory Spec2Isabelle
  imports Main
begin

section \<open>Strings of the source\<close>

text \<open>
  A Python \<open>str\<close> is modelled as a \<open>string\<close>; a \<open>char\<close> stands for the code point of
  the same number, so the model covers the code points U+0000 to U+00FF. Every
  character that the source names (separators, quotes, the classes of the
  regular expression, the header words) is ASCII.
\<close>

definition code :: "char \<Rightarrow> nat" where
  "code c = of_char c"

definition is_space :: "char \<Rightarrow> bool" where
  \<comment> \<open>\<open>str.isspace\<close> on one character, which is what \<open>str.strip()\<close> removes:
      TAB, LF, VT, FF, CR, FS, GS, RS, US, SPACE, NEL, NBSP.\<close>
  "is_space c = (let n = code c in
     (9 \<le> n \<and> n \<le> 13) \<or> (28 \<le> n \<and> n \<le> 32) \<or> n = 133 \<or> n = 160)"

definition strip_chars :: "(char \<Rightarrow> bool) \<Rightarrow> string \<Rightarrow> string" where
  \<comment> \<open>\<open>s.strip(chars)\<close>: every leading and every trailing character of the set goes.\<close>
  "strip_chars p s = rev (dropWhile p (rev (dropWhile p s)))"

definition py_strip :: "string \<Rightarrow> string" where
  \<comment> \<open>\<open>s.strip()\<close>\<close>
  "py_strip s = strip_chars is_space s"

definition is_quote :: "char \<Rightarrow> bool" where
  \<comment> \<open>membership in the argument of \<open>strip('"\'')\<close>\<close>
  "is_quote c = (c = CHR 0x22 \<or> c = CHR 0x27)"

definition lower_char :: "char \<Rightarrow> char" where
  \<comment> \<open>\<open>str.lower\<close> on one character below U+0100: A-Z and the Latin-1 capitals
      (U+00C0 to U+00DE without the multiplication sign) move up by 32.\<close>
  "lower_char c = (let n = code c in
     if (65 \<le> n \<and> n \<le> 90) \<or> (192 \<le> n \<and> n \<le> 222 \<and> n \<noteq> 215)
     then char_of (n + 32) else c)"

definition py_lower :: "string \<Rightarrow> string" where
  "py_lower s = map lower_char s"

section \<open>Regular expressions as \<open>re.match\<close> reads them\<close>

datatype rexp =
    Null
  | Empty
  | Cls "char \<Rightarrow> bool"
  | Alt rexp rexp
  | Seq rexp rexp
  | Star rexp

definition Lit :: "char \<Rightarrow> rexp" where
  "Lit x = Cls (\<lambda>c. c = x)"

definition Plus :: "rexp \<Rightarrow> rexp" where
  \<comment> \<open>\<open>r+\<close>\<close>
  "Plus r = Seq r (Star r)"

definition AtLeast2 :: "rexp \<Rightarrow> rexp" where
  \<comment> \<open>\<open>r{2,}\<close>\<close>
  "AtLeast2 r = Seq r (Seq r (Star r))"

primrec accepts_empty :: "rexp \<Rightarrow> bool" where
  "accepts_empty Null = False"
| "accepts_empty Empty = True"
| "accepts_empty (Cls p) = False"
| "accepts_empty (Alt r s) = (accepts_empty r \<or> accepts_empty s)"
| "accepts_empty (Seq r s) = (accepts_empty r \<and> accepts_empty s)"
| "accepts_empty (Star r) = True"

primrec after_char :: "char \<Rightarrow> rexp \<Rightarrow> rexp" where
  "after_char c Null = Null"
| "after_char c Empty = Null"
| "after_char c (Cls p) = (if p c then Empty else Null)"
| "after_char c (Alt r s) = Alt (after_char c r) (after_char c s)"
| "after_char c (Seq r s) =
     (if accepts_empty r then Alt (Seq (after_char c r) s) (after_char c s)
      else Seq (after_char c r) s)"
| "after_char c (Star r) = Seq (after_char c r) (Star r)"

primrec consumes :: "rexp \<Rightarrow> string \<Rightarrow> bool" where
  \<comment> \<open>the expression can consume exactly the whole string\<close>
  "consumes r [] = accepts_empty r"
| "consumes r (c # cs) = consumes (after_char c r) cs"

definition re_match_dollar :: "rexp \<Rightarrow> string \<Rightarrow> bool" where
  \<comment> \<open>\<open>re.match('^' r '$', s) is not None\<close>: \<open>^\<close> holds at the start, where
      \<open>re.match\<close> begins anyway; without MULTILINE, \<open>$\<close> holds at the end of the
      string and just before a line feed that is its last character.\<close>
  "re_match_dollar r s =
     (consumes r s \<or> (s \<noteq> [] \<and> last s = CHR 0x0A \<and> consumes r (butlast s)))"

section \<open>The validator\<close>

definition alpha :: "char \<Rightarrow> bool" where
  \<comment> \<open>\<open>[a-zA-Z]\<close>\<close>
  "alpha c = (let n = code c in (97 \<le> n \<and> n \<le> 122) \<or> (65 \<le> n \<and> n \<le> 90))"

definition digit :: "char \<Rightarrow> bool" where
  \<comment> \<open>\<open>0-9\<close>\<close>
  "digit c = (let n = code c in 48 \<le> n \<and> n \<le> 57)"

definition local_char :: "char \<Rightarrow> bool" where
  \<comment> \<open>\<open>[a-zA-Z0-9._%+-]\<close>\<close>
  "local_char c = (alpha c \<or> digit c \<or> c = CHR ''.'' \<or> c = CHR ''_'' \<or> c = CHR ''%''
     \<or> c = CHR ''+'' \<or> c = CHR ''-'')"

definition domain_char :: "char \<Rightarrow> bool" where
  \<comment> \<open>\<open>[a-zA-Z0-9.-]\<close>\<close>
  "domain_char c = (alpha c \<or> digit c \<or> c = CHR ''.'' \<or> c = CHR ''-'')"

definition pattern :: rexp where
  \<comment> \<open>\<open>[a-zA-Z0-9._%+-]+@[a-zA-Z0-9.-]+\.[a-zA-Z]{2,}\<close>, between \<open>^\<close> and \<open>$\<close>\<close>
  "pattern =
     Seq (Plus (Cls local_char))
       (Seq (Lit CHR ''@'')
         (Seq (Plus (Cls domain_char))
           (Seq (Lit CHR ''.'') (AtLeast2 (Cls alpha)))))"

definition is_valid_email :: "string \<Rightarrow> bool" where
  \<comment> \<open>\<open>re.match(pattern, email.strip()) is not None\<close>\<close>
  "is_valid_email email = re_match_dollar pattern (py_strip email)"

section \<open>Exceptions, configuration values and the world outside\<close>

datatype exn_class =
    FileNotFoundError
  | SMTPAuthenticationError
  | SMTPConnectError
  | KeyError
  | OtherException

text \<open>An exception below \<open>Exception\<close>: its class, as far as a handler of the source
  tells classes apart, and the text \<open>str(e)\<close>.\<close>

datatype exn = Exn exn_class string

fun exn_cls :: "exn \<Rightarrow> exn_class" where
  "exn_cls (Exn k t) = k"

fun str_exn :: "exn \<Rightarrow> string" where
  "str_exn (Exn k t) = t"

datatype json =
    JNull
  | JBool bool
  | JInt int
  | JStr string
  | JArr "json list"
  | JObj "(string \<times> json) list"

text \<open>The configuration is the \<open>Dict\<close> that \<open>load_config\<close> returns: the pairs of a
  parsed JSON object, or the eight pairs built from the environment.\<close>

type_synonym config = "(string \<times> json) list"

definition config_get :: "config \<Rightarrow> string \<Rightarrow> exn + json" where
  \<comment> \<open>\<open>self.config[key]\<close>; \<open>str\<close> of a KeyError is the \<open>repr\<close> of the key\<close>
  "config_get cfg key =
     (case map_of cfg key of
        None \<Rightarrow> Inl (Exn KeyError ([CHR 0x27] @ key @ [CHR 0x27]))
      | Some v \<Rightarrow> Inr v)"

text \<open>What the standard library does for one recipient, call by call; \<open>None\<close> is a
  call that returns, \<open>Some e\<close> one that raises \<open>e\<close>.\<close>

record smtp_attempt =
  mime_text :: "exn option"   \<comment> \<open>\<open>MIMEText(body, 'plain')\<close>\<close>
  connect :: "exn option"     \<comment> \<open>\<open>smtplib.SMTP(host, port)\<close>\<close>
  starttls :: "exn option"    \<comment> \<open>\<open>server.starttls()\<close>\<close>
  login :: "exn option"       \<comment> \<open>\<open>server.login(username, password)\<close>\<close>
  as_string :: "exn option"   \<comment> \<open>\<open>msg.as_string()\<close>\<close>
  sendmail :: "exn option"    \<comment> \<open>\<open>server.sendmail(username, recipient, text)\<close>\<close>
  quit :: "exn option"        \<comment> \<open>\<open>server.quit()\<close>\<close>

text \<open>The operating system and the standard library, as far as the source calls them.\<close>

record world =
  path_exists :: "string \<Rightarrow> bool"            \<comment> \<open>\<open>os.path.exists\<close>\<close>
  json_load :: "string \<Rightarrow> exn + config"      \<comment> \<open>\<open>open\<close> and \<open>json.load\<close> of a path\<close>
  getenv :: "string \<Rightarrow> string option"        \<comment> \<open>\<open>os.getenv\<close> without a default\<close>
  py_int :: "string \<Rightarrow> exn + int"            \<comment> \<open>the builtin \<open>int\<close> on a string\<close>
  readlines :: "string \<Rightarrow> exn + string list" \<comment> \<open>\<open>open\<close> and \<open>readlines\<close> of a path\<close>
  smtp :: "string \<Rightarrow> smtp_attempt"           \<comment> \<open>the mail library, by recipient\<close>
  time_sleep :: "json \<Rightarrow> exn option"         \<comment> \<open>\<open>time.sleep\<close>\<close>

section \<open>The sender and its log\<close>

text \<open>One constructor for each message that the source passes to \<open>log_message\<close>,
  with the values it interpolates. The time stamp that \<open>log_message\<close> puts in front
  is left out.\<close>

datatype log_entry =
    EmailStatus string string string  \<comment> \<open>\<open>log_email_status(email, status, error_msg)\<close>\<close>
  | ReadingLines nat string
  | SkippingHeader string
  | ProcessingLine nat string
  | AddedValid string
  | CsvNotFound string
  | ErrorReading string
  | LoadedValid nat
  | ProcessStarted
  | UsingHost json json
  | SenderIs json
  | DelayBetween json
  | NoValidEmails
  | ProcessingEmail nat nat string
  | Waiting json
  | CriticalError string
  | ProcessCompleted
  | SummaryHeading
  | SummaryTotal int
  | SummarySent int
  | SummaryFailed int
  | SummaryInvalid int
  | SummaryDuplicates int

record stats =
  total :: int
  sent :: int
  failed :: int
  invalid :: int
  duplicates :: int

record sender =
  processed_emails :: "string set"
  stats :: stats
  config :: config
  logged :: "log_entry list"   \<comment> \<open>the messages passed to \<open>log_message\<close>, oldest first\<close>
  sleeps :: "json list"        \<comment> \<open>the arguments of the \<open>time.sleep\<close> calls that returned\<close>

definition log_message :: "log_entry \<Rightarrow> sender \<Rightarrow> sender" where
  "log_message m st = st\<lparr>logged := logged st @ [m]\<rparr>"

definition log_email_status :: "string \<Rightarrow> string \<Rightarrow> string \<Rightarrow> sender \<Rightarrow> sender" where
  "log_email_status email status error_msg st = log_message (EmailStatus email status error_msg) st"

section \<open>\<open>load_config\<close> and \<open>__init__\<close>\<close>

definition env_str :: "world \<Rightarrow> string \<Rightarrow> string \<Rightarrow> string" where
  \<comment> \<open>\<open>os.getenv(name, default)\<close>\<close>
  "env_str w name dflt = (case getenv w name of None \<Rightarrow> dflt | Some v \<Rightarrow> v)"

definition load_config :: "world \<Rightarrow> string \<Rightarrow> exn + config" where
  "load_config w config_file =
     (if path_exists w config_file then json_load w config_file
      else
        (case py_int w (env_str w ''SMTP_PORT'' ''587'') of
           Inl e \<Rightarrow> Inl e
         | Inr port \<Rightarrow>
             (case py_int w (env_str w ''EMAIL_DELAY'' ''90'') of
                Inl e \<Rightarrow> Inl e
              | Inr delay \<Rightarrow>
                  Inr [(''smtp_host'', JStr (env_str w ''SMTP_HOST'' ''smtp.gmail.com'')),
                       (''smtp_port'', JInt port),
                       (''username'', JStr (env_str w ''SMTP_USERNAME'' ''dummy@gmail.com'')),
                       (''password'', JStr (env_str w ''SMTP_PASSWORD'' ''dummy_password'')),
                       (''sender_name'', JStr (env_str w ''SENDER_NAME'' ''Automated Mailer'')),
                       (''subject'', JStr (env_str w ''EMAIL_SUBJECT'' ''Your Subject Here'')),
                       (''body'',
                          JStr (env_str w ''EMAIL_BODY'' ''Hello, this is an automated message.'')),
                       (''delay_seconds'', JInt delay)])))"

definition EmailSender_init :: "world \<Rightarrow> string \<Rightarrow> exn + sender" where
  "EmailSender_init w config_file =
     (case load_config w config_file of
        Inl e \<Rightarrow> Inl e
      | Inr cfg \<Rightarrow>
          Inr \<lparr>processed_emails = {},
               stats = \<lparr>total = 0, sent = 0, failed = 0, invalid = 0, duplicates = 0\<rparr>,
               config = cfg, logged = [], sleeps = []\<rparr>)"

section \<open>\<open>read_emails_from_csv\<close>\<close>

definition header_words :: "string list" where
  "header_words = [''email'', ''emails'', ''mail'', ''e-mail'']"

definition separators :: "char list" where
  \<comment> \<open>\<open>[',', ';', '\t', '|']\<close>\<close>
  "separators = [CHR '','', CHR '';'', CHR 0x09, CHR ''|'']"

fun first_part :: "char list \<Rightarrow> string \<Rightarrow> string" where
  \<comment> \<open>the loop over the separators, left at the first one that the line contains;
      \<open>line.split(separator)[0]\<close> is the line up to the first separator\<close>
  "first_part [] line = line"
| "first_part (separator # others) line =
     (if separator \<in> set line then py_strip (takeWhile (\<lambda>c. c \<noteq> separator) line)
      else first_part others line)"

definition possible_email :: "string \<Rightarrow> string" where
  \<comment> \<open>\<open>possible_email\<close> of a stripped line, after the quotes are removed\<close>
  "possible_email line = strip_chars is_quote (first_part separators line)"

definition count_invalid :: "sender \<Rightarrow> sender" where
  "count_invalid st = st\<lparr>stats := (stats st)\<lparr>invalid := invalid (stats st) + 1\<rparr>\<rparr>"

definition count_duplicate :: "sender \<Rightarrow> sender" where
  "count_duplicate st = st\<lparr>stats := (stats st)\<lparr>duplicates := duplicates (stats st) + 1\<rparr>\<rparr>"

definition process_line :: "nat \<Rightarrow> string \<Rightarrow> string list \<times> sender \<Rightarrow> string list \<times> sender" where
  \<comment> \<open>one turn of the loop over the lines, on the list \<open>emails\<close> and the sender\<close>
  "process_line line_num raw acc =
     (case acc of (emails, st) \<Rightarrow>
        (let line = py_strip raw in
         if line = [] then (emails, st)
         else if py_lower line \<in> set header_words
           then (emails, log_message (SkippingHeader line) st)
         else
           (let candidate = possible_email line;
                st1 = log_message (ProcessingLine line_num candidate) st in
            if \<not> is_valid_email candidate
              then (emails, count_invalid (log_email_status candidate ''INVALID EMAIL'' [] st1))
            else if candidate \<in> processed_emails st1
              then (emails, count_duplicate (log_email_status candidate ''DUPLICATE'' [] st1))
            else
              (emails @ [candidate],
               log_message (AddedValid candidate)
                 (st1\<lparr>processed_emails := insert candidate (processed_emails st1)\<rparr>)))))"

fun read_loop :: "nat \<Rightarrow> string list \<Rightarrow> string list \<times> sender \<Rightarrow> string list \<times> sender" where
  \<comment> \<open>\<open>for line_num, line in enumerate(lines, line_num)\<close>\<close>
  "read_loop line_num [] acc = acc"
| "read_loop line_num (line # rest) acc =
     read_loop (Suc line_num) rest (process_line line_num line acc)"

definition read_emails_from_csv :: "world \<Rightarrow> string \<Rightarrow> sender \<Rightarrow> string list \<times> sender" where
  "read_emails_from_csv w csv_file st =
     (case readlines w csv_file of
        Inl e \<Rightarrow>
          (if exn_cls e = FileNotFoundError then ([], log_message (CsvNotFound csv_file) st)
           else ([], log_message (ErrorReading (str_exn e)) st))
      | Inr lines \<Rightarrow>
          (case read_loop 1 lines ([], log_message (ReadingLines (length lines) csv_file) st) of
             (emails, st1) \<Rightarrow> (emails, log_message (LoadedValid (length emails)) st1)))"

section \<open>\<open>create_email_message\<close> and \<open>send_single_email\<close>\<close>

record message =
  msg_from :: "json \<times> json"   \<comment> \<open>\<open>sender_name\<close> and \<open>username\<close> of the From header\<close>
  msg_to :: string
  msg_subject :: json
  msg_body :: json

definition bind :: "exn + 'a \<Rightarrow> ('a \<Rightarrow> exn + 'b) \<Rightarrow> exn + 'b" where
  \<comment> \<open>the next statement runs when the one before it has not raised\<close>
  "bind r f = (case r of Inl e \<Rightarrow> Inl e | Inr v \<Rightarrow> f v)"

definition call :: "exn option \<Rightarrow> exn + 'a \<Rightarrow> exn + 'a" where
  \<comment> \<open>a library call, then the statements after it\<close>
  "call r rest = (case r of Some e \<Rightarrow> Inl e | None \<Rightarrow> rest)"

definition create_email_message :: "smtp_attempt \<Rightarrow> config \<Rightarrow> string \<Rightarrow> exn + message" where
  "create_email_message lib cfg recipient =
     bind (config_get cfg ''sender_name'') (\<lambda>sender_name.
     bind (config_get cfg ''username'') (\<lambda>username.
     bind (config_get cfg ''subject'') (\<lambda>subject.
     bind (config_get cfg ''body'') (\<lambda>body.
     call (mime_text lib)
       (Inr \<lparr>msg_from = (sender_name, username), msg_to = recipient,
             msg_subject = subject, msg_body = body\<rparr>)))))"

definition open_session :: "smtp_attempt \<Rightarrow> config \<Rightarrow> string \<Rightarrow> exn + message" where
  \<comment> \<open>the statements of the outer \<open>try\<close> before the inner one: the message, the
      connection, STARTTLS\<close>
  "open_session lib cfg recipient =
     bind (create_email_message lib cfg recipient) (\<lambda>msg.
     bind (config_get cfg ''smtp_host'') (\<lambda>host.
     bind (config_get cfg ''smtp_port'') (\<lambda>port.
     call (connect lib)
       (call (starttls lib) (Inr msg)))))"

definition submit :: "smtp_attempt \<Rightarrow> config \<Rightarrow> exn + unit" where
  \<comment> \<open>the statements of the inner \<open>try\<close> up to \<open>server.quit()\<close>\<close>
  "submit lib cfg =
     bind (config_get cfg ''username'') (\<lambda>username.
     bind (config_get cfg ''password'') (\<lambda>password.
     call (login lib)
       (call (as_string lib)
         (bind (config_get cfg ''username'') (\<lambda>envelope_from.
          call (sendmail lib)
            (call (quit lib) (Inr ())))))))"

definition count_sent :: "sender \<Rightarrow> sender" where
  "count_sent st = st\<lparr>stats := (stats st)\<lparr>sent := sent (stats st) + 1\<rparr>\<rparr>"

definition count_failed :: "sender \<Rightarrow> sender" where
  "count_failed st = st\<lparr>stats := (stats st)\<lparr>failed := failed (stats st) + 1\<rparr>\<rparr>"

definition send_single_email :: "world \<Rightarrow> string \<Rightarrow> sender \<Rightarrow> bool \<times> sender" where
  "send_single_email w recipient st =
     (case open_session (smtp w recipient) (config st) recipient of
        Inl e \<Rightarrow> (False, count_failed (log_email_status recipient ''FAILED'' (str_exn e) st))
      | Inr msg \<Rightarrow>
          (case submit (smtp w recipient) (config st) of
             Inr u \<Rightarrow> (True, count_sent (log_email_status recipient ''SENT'' [] st))
           | Inl e \<Rightarrow>
               (if exn_cls e = SMTPAuthenticationError
                  then (False, count_failed (log_email_status recipient ''FAILED''
                          ''Authentication Failed - Check credentials'' st))
                else if exn_cls e = SMTPConnectError
                  then (False, count_failed (log_email_status recipient ''FAILED''
                          ''Connection Error'' st))
                else (False, count_failed (log_email_status recipient ''FAILED''
                          (''SMTP Error: '' @ str_exn e) st)))))"

section \<open>\<open>send_emails_from_csv\<close>\<close>

fun send_loop :: "world \<Rightarrow> nat \<Rightarrow> nat \<Rightarrow> string list \<Rightarrow> sender \<Rightarrow> exn option \<times> sender" where
  \<comment> \<open>\<open>for i, email in enumerate(emails, i)\<close> with \<open>n = len(emails)\<close>; \<open>Some e\<close> is
      an exception that leaves the loop\<close>
  "send_loop w i n [] st = (None, st)"
| "send_loop w i n (email # rest) st =
     (case send_single_email w email (log_message (ProcessingEmail i n email) st) of
        (success, st1) \<Rightarrow>
          (if i < n then
             (case config_get (config st1) ''delay_seconds'' of
                Inl e \<Rightarrow> (Some e, st1)
              | Inr delay \<Rightarrow>
                  (case time_sleep w delay of
                     Some e \<Rightarrow> (Some e, log_message (Waiting delay) st1)
                   | None \<Rightarrow>
                       send_loop w (Suc i) n rest
                         ((log_message (Waiting delay) st1)
                            \<lparr>sleeps := sleeps st1 @ [delay]\<rparr>)))
           else send_loop w (Suc i) n rest st1))"

definition print_summary :: "sender \<Rightarrow> sender" where
  "print_summary st =
     log_message (SummaryDuplicates (duplicates (stats st)))
       (log_message (SummaryInvalid (invalid (stats st)))
         (log_message (SummaryFailed (failed (stats st)))
           (log_message (SummarySent (sent (stats st)))
             (log_message (SummaryTotal (total (stats st)))
               (log_message SummaryHeading
                 (log_message ProcessCompleted st))))))"

definition process_emails :: "world \<Rightarrow> string \<Rightarrow> sender \<Rightarrow> exn option \<times> sender" where
  \<comment> \<open>the body of the \<open>try\<close>; \<open>Some e\<close> is an exception that reaches the handler\<close>
  "process_emails w csv_file st =
     (case read_emails_from_csv w csv_file st of
        (emails, st1) \<Rightarrow>
          (let st2 = st1\<lparr>stats := (stats st1)\<lparr>total := int (length emails)\<rparr>\<rparr> in
           if emails = [] then (None, log_message NoValidEmails st2)
           else send_loop w 1 (length emails) emails st2))"

definition send_emails_from_csv :: "world \<Rightarrow> string \<Rightarrow> sender \<Rightarrow> exn option \<times> sender" where
  \<comment> \<open>\<open>Some e\<close> is an exception that leaves the method: only the look-ups before the
      \<open>try\<close> can raise one\<close>
  "send_emails_from_csv w csv_file st =
     (let st1 = log_message ProcessStarted st in
      case bind (config_get (config st1) ''smtp_host'') (\<lambda>host.
           bind (config_get (config st1) ''smtp_port'') (\<lambda>port. Inr (host, port))) of
        Inl e \<Rightarrow> (Some e, st1)
      | Inr (host, port) \<Rightarrow>
          (let st2 = log_message (UsingHost host port) st1 in
           case config_get (config st2) ''username'' of
             Inl e \<Rightarrow> (Some e, st2)
           | Inr username \<Rightarrow>
               (let st3 = log_message (SenderIs username) st2 in
                case config_get (config st3) ''delay_seconds'' of
                  Inl e \<Rightarrow> (Some e, st3)
                | Inr delay \<Rightarrow>
                    (let st4 = log_message (DelayBetween delay) st3 in
                     case process_emails w csv_file st4 of
                       (None, st5) \<Rightarrow> (None, print_summary st5)
                     | (Some e, st5) \<Rightarrow>
                         (None, print_summary (log_message (CriticalError (str_exn e)) st5))))))"

section \<open>Notions of the specification\<close>

text \<open>The pattern in the words of the specification: one or more characters of the
  first class, an at sign, one or more characters of the second class, a dot, two
  or more letters, and nothing else.\<close>

definition matches_pattern :: "string \<Rightarrow> bool" where
  "matches_pattern s =
     (\<exists>name host tld.
        s = name @ [CHR ''@''] @ host @ [CHR ''.''] @ tld
        \<and> name \<noteq> [] \<and> (\<forall>c \<in> set name. local_char c)
        \<and> host \<noteq> [] \<and> (\<forall>c \<in> set host. domain_char c)
        \<and> 2 \<le> length tld \<and> (\<forall>c \<in> set tld. alpha c))"

definition considered :: "string \<Rightarrow> bool" where
  \<comment> \<open>a line that is neither empty nor a header once it is stripped\<close>
  "considered raw = (py_strip raw \<noteq> [] \<and> py_lower (py_strip raw) \<notin> set header_words)"

definition candidates :: "string list \<Rightarrow> string list" where
  \<comment> \<open>the candidate of every considered line, in the order of the lines\<close>
  "candidates lines = map (\<lambda>raw. possible_email (py_strip raw)) (filter considered lines)"

definition lines_of :: "world \<Rightarrow> string \<Rightarrow> string list" where
  \<comment> \<open>the lines of the source; none when it cannot be read\<close>
  "lines_of w csv_file = (case readlines w csv_file of Inl e \<Rightarrow> [] | Inr lines \<Rightarrow> lines)"

definition first_index :: "'a list \<Rightarrow> 'a \<Rightarrow> nat" where
  \<comment> \<open>the position of the first occurrence\<close>
  "first_index xs x = length (takeWhile (\<lambda>y. y \<noteq> x) xs)"

fun accepted :: "string set \<Rightarrow> string list \<Rightarrow> string list" where
  \<comment> \<open>the valid candidates that are new with respect to a set and to the ones before\<close>
  "accepted seen [] = []"
| "accepted seen (c # cs) =
     (if is_valid_email c \<and> c \<notin> seen then c # accepted (insert c seen) cs
      else accepted seen cs)"

text \<open>The classification of a considered line, told by what the turn of the loop does
  to the list of addresses, the set, the counters and the log.\<close>

datatype classification = Invalid | Duplicate | Valid

definition classified_as ::
  "classification \<Rightarrow> nat \<Rightarrow> string \<Rightarrow> string list \<times> sender \<Rightarrow> string list \<times> sender \<Rightarrow> bool" where
  "classified_as k line_num c before after =
     (case before of (emails, st) \<Rightarrow> case after of (emails', st') \<Rightarrow>
        (case k of
           Invalid \<Rightarrow>
             emails' = emails \<and> processed_emails st' = processed_emails st
             \<and> stats st' = (stats st)\<lparr>invalid := invalid (stats st) + 1\<rparr>
             \<and> logged st' = logged st
                  @ [ProcessingLine line_num c, EmailStatus c ''INVALID EMAIL'' []]
         | Duplicate \<Rightarrow>
             emails' = emails \<and> processed_emails st' = processed_emails st
             \<and> stats st' = (stats st)\<lparr>duplicates := duplicates (stats st) + 1\<rparr>
             \<and> logged st' = logged st
                  @ [ProcessingLine line_num c, EmailStatus c ''DUPLICATE'' []]
         | Valid \<Rightarrow>
             emails' = emails @ [c] \<and> processed_emails st' = insert c (processed_emails st)
             \<and> stats st' = stats st
             \<and> logged st' = logged st @ [ProcessingLine line_num c, AddedValid c]))"

text \<open>What a run of the loop over \<open>emails\<close> has done when \<open>m\<close> recipients were
  dispatched: the counters, the suspensions, and how the loop ended.\<close>

definition loop_count :: "world \<Rightarrow> json \<Rightarrow> string list \<Rightarrow> exn option \<Rightarrow> sender \<Rightarrow> sender \<Rightarrow> nat \<Rightarrow> bool" where
  "loop_count w d emails r st st' m =
     (m \<le> length emails \<and> (emails \<noteq> [] \<longrightarrow> 1 \<le> m)
      \<and> sent (stats st') + failed (stats st') = sent (stats st) + failed (stats st) + int m
      \<and> sleeps st' = sleeps st @ replicate (m - 1) d
      \<and> (r = None \<longrightarrow> m = length emails)
      \<and> (time_sleep w d = None \<longrightarrow> r = None))"

text \<open>The parts of the sender that dispatching leaves alone.\<close>

definition same_but_counts :: "sender \<Rightarrow> sender \<Rightarrow> bool" where
  "same_but_counts st st' =
     (config st' = config st \<and> processed_emails st' = processed_emails st
      \<and> total (stats st') = total (stats st) \<and> invalid (stats st') = invalid (stats st)
      \<and> duplicates (stats st') = duplicates (stats st))"

section \<open>Example inputs\<close>

definition full_config :: "int \<Rightarrow> config" where
  \<comment> \<open>a configuration with all eight keys and the given delay\<close>
  "full_config delay =
     [(''smtp_host'', JStr ''smtp.example.com''), (''smtp_port'', JInt 587),
      (''username'', JStr ''me@example.com''), (''password'', JStr ''secret''),
      (''sender_name'', JStr ''Me''), (''subject'', JStr ''Hello''),
      (''body'', JStr ''Hi there''), (''delay_seconds'', JInt delay)]"

definition accepting :: smtp_attempt where
  \<comment> \<open>every library call returns\<close>
  "accepting = \<lparr>mime_text = None, connect = None, starttls = None, login = None,
     as_string = None, sendmail = None, quit = None\<rparr>"

definition sleep_rejecting_negative :: "json \<Rightarrow> exn option" where
  \<comment> \<open>\<open>time.sleep\<close> as far as the examples call it: a negative number of seconds
      raises ValueError, every other value of the examples is slept\<close>
  "sleep_rejecting_negative secs =
     (case secs of
        JInt n \<Rightarrow> (if n < 0 then Some (Exn OtherException ''sleep length must be non-negative'')
                   else None)
      | _ \<Rightarrow> None)"

definition example_world :: "config \<Rightarrow> string list \<Rightarrow> (string \<Rightarrow> smtp_attempt) \<Rightarrow> world" where
  \<comment> \<open>the configuration file holds the given object, the recipient source the given lines\<close>
  "example_world cfg lines lib =
     \<lparr>path_exists = (\<lambda>p. True), json_load = (\<lambda>p. Inr cfg), getenv = (\<lambda>n. None),
      py_int = (\<lambda>s. Inl (Exn OtherException ''invalid literal for int()'')),
      readlines = (\<lambda>p. Inr lines), smtp = lib, time_sleep = sleep_rejecting_negative\<rparr>"

definition fresh_sender :: "config \<Rightarrow> sender" where
  \<comment> \<open>the sender as \<open>__init__\<close> leaves it\<close>
  "fresh_sender cfg =
     \<lparr>processed_emails = {},
      stats = \<lparr>total = 0, sent = 0, failed = 0, invalid = 0, duplicates = 0\<rparr>,
      config = cfg, logged = [], sleeps = []\<rparr>"

definition scenario_lines :: "string list" where
  \<comment> \<open>the end-to-end scenario of the specification\<close>
  "scenario_lines =
     [''alice@test.com'' @ [CHR 0x0A], [CHR 0x0A], ''Email'' @ [CHR 0x0A],
      ''bob@test.com,extra'' @ [CHR 0x0A], ''alice@test.com'' @ [CHR 0x0A], ''not-an-email'']"

definition scenario_world :: world where
  "scenario_world = example_world (full_config 90) scenario_lines (\<lambda>r. accepting)"

definition padded_line :: string where
  \<comment> \<open>a quoted line whose address has a space in front\<close>
  "padded_line = [CHR 0x22] @ '' a@b.com'' @ [CHR 0x22, CHR 0x0A]"

definition sender_knowing :: "string \<Rightarrow> sender" where
  \<comment> \<open>a sender that has processed one address\<close>
  "sender_knowing email = (fresh_sender (full_config 90))\<lparr>processed_emails := {email}\<rparr>"

definition two_recipients :: "string list" where
  \<comment> \<open>a source with two valid addresses\<close>
  "two_recipients = [''a@b.com'' @ [CHR 0x0A], ''c@d.com'' @ [CHR 0x0A]]"

definition negative_delay_world :: world where
  \<comment> \<open>the configuration file sets \<open>delay_seconds\<close> to -1\<close>
  "negative_delay_world = example_world (full_config (- 1)) two_recipients (\<lambda>r. accepting)"

definition refused :: smtp_attempt where
  \<comment> \<open>the server answers the connection with 421, so \<open>smtplib.SMTP(host, port)\<close> raises
      SMTPConnectError\<close>
  "refused =
     accepting\<lparr>connect := Some (Exn SMTPConnectError ''(421, b'Service not available')'')\<rparr>"

definition refusing_world :: world where
  "refusing_world = example_world (full_config 90) two_recipients (\<lambda>r. refused)"

definition repeated_padded_world :: world where
  \<comment> \<open>a source that holds the padded line twice\<close>
  "repeated_padded_world =
     example_world (full_config 90) [padded_line, padded_line] (\<lambda>r. accepting)"

section \<open>The matcher and the pattern\<close>

lemma consumes_Null [simp]: "consumes Null w = False"
  by (induction w) simp_all

lemma consumes_Empty [simp]: "consumes Empty w = (w = [])"
  by (cases w) simp_all

lemma consumes_Cls [simp]: "consumes (Cls p) w = (\<exists>c. w = [c] \<and> p c)"
  by (cases w) auto

lemma consumes_Alt [simp]: "consumes (Alt r s) w = (consumes r w \<or> consumes s w)"
  by (induction w arbitrary: r s) simp_all

lemma consumes_Seq: "consumes (Seq r s) w = (\<exists>u v. w = u @ v \<and> consumes r u \<and> consumes s v)"
proof (induction w arbitrary: r)
  case Nil
  show ?case by simp
next
  case (Cons c cs)
  have split: "(\<exists>u v. c # cs = u @ v \<and> consumes r u \<and> consumes s v) =
      ((accepts_empty r \<and> consumes s (c # cs))
        \<or> (\<exists>u v. cs = u @ v \<and> consumes (after_char c r) u \<and> consumes s v))"
    (is "?L = ?R")
  proof
    assume ?L
    then obtain u v where uv: "c # cs = u @ v" "consumes r u" "consumes s v" by blast
    show ?R
    proof (cases u)
      case Nil
      with uv show ?thesis by simp
    next
      case (Cons a u')
      with uv have "cs = u' @ v" "consumes (after_char c r) u'" by simp_all
      with uv(3) show ?thesis by blast
    qed
  next
    assume ?R
    then show ?L
    proof
      assume "accepts_empty r \<and> consumes s (c # cs)"
      then have "c # cs = [] @ (c # cs) \<and> consumes r [] \<and> consumes s (c # cs)" by simp
      then show ?L by blast
    next
      assume "\<exists>u v. cs = u @ v \<and> consumes (after_char c r) u \<and> consumes s v"
      then obtain u v where "cs = u @ v" "consumes (after_char c r) u" "consumes s v" by blast
      then have "c # cs = (c # u) @ v \<and> consumes r (c # u) \<and> consumes s v" by simp
      then show ?L by blast
    qed
  qed
  show ?case unfolding split using Cons.IH by auto
qed

lemma consumes_Cls_then: "consumes (Seq (Cls p) s) w = (\<exists>c v. w = c # v \<and> p c \<and> consumes s v)"
  by (cases w) (auto simp: consumes_Seq)

lemma consumes_Star_Cls: "consumes (Star (Cls p)) w = (\<forall>c \<in> set w. p c)"
  by (induction w) (simp_all add: consumes_Seq)

lemma consumes_Plus_Cls: "consumes (Plus (Cls p)) w = (w \<noteq> [] \<and> (\<forall>c \<in> set w. p c))"
  unfolding Plus_def consumes_Cls_then consumes_Star_Cls
  by (cases w) auto

lemma consumes_AtLeast2_Cls: "consumes (AtLeast2 (Cls p)) w = (2 \<le> length w \<and> (\<forall>c \<in> set w. p c))"
proof (cases w)
  case Nil
  then show ?thesis by (simp add: AtLeast2_def)
next
  case (Cons a w')
  then show ?thesis
    unfolding AtLeast2_def consumes_Cls_then consumes_Star_Cls
    by (cases w') auto
qed

lemma consumes_Lit: "consumes (Lit x) w = (w = [x])"
  by (auto simp: Lit_def)

lemma consumes_pattern: "consumes pattern s = matches_pattern s"
  unfolding pattern_def matches_pattern_def consumes_Seq consumes_Plus_Cls consumes_AtLeast2_Cls
    consumes_Lit
  by (auto; blast)

section \<open>Stripping\<close>

lemma last_dropWhile_nonempty: "dropWhile p xs \<noteq> [] \<Longrightarrow> last (dropWhile p xs) = last xs"
  by (induction xs) (auto split: if_splits)

lemma strip_chars_edges:
  assumes "strip_chars p s \<noteq> []"
  shows "\<not> p (hd (strip_chars p s)) \<and> \<not> p (last (strip_chars p s))"
proof -
  let ?t = "dropWhile p s"
  let ?r = "dropWhile p (rev ?t)"
  from assms have r: "?r \<noteq> []" by (simp add: strip_chars_def)
  have t: "?t \<noteq> []"
  proof
    assume e: "?t = []"
    have "?r = []" unfolding e by simp
    with r show False by blast
  qed
  have "last (strip_chars p s) = hd ?r" using r by (simp add: strip_chars_def last_rev)
  moreover have "\<not> p (hd ?r)" using r by (rule hd_dropWhile)
  moreover have "hd (strip_chars p s) = last ?r" using r by (simp add: strip_chars_def hd_rev)
  moreover have "last ?r = last (rev ?t)" using r by (rule last_dropWhile_nonempty)
  moreover have "last (rev ?t) = hd ?t" using t by (simp add: last_rev)
  moreover have "\<not> p (hd ?t)" using t by (rule hd_dropWhile)
  ultimately show ?thesis by simp
qed

lemma dropWhile_all: "\<forall>c \<in> set q. p c \<Longrightarrow> dropWhile p (q @ xs) = dropWhile p xs"
  by (induction q) simp_all

lemma strip_chars_wrapped:
  assumes q1: "\<forall>c \<in> set q1. p c" and q2: "\<forall>c \<in> set q2. p c"
    and core: "core = [] \<or> (\<not> p (hd core) \<and> \<not> p (last core))"
  shows "strip_chars p (q1 @ core @ q2) = core"
proof (cases "core = []")
  case True
  have "\<forall>c \<in> set (q1 @ q2). p c" using q1 q2 by auto
  then have e: "dropWhile p (q1 @ q2) = []" by (simp only: dropWhile_eq_Nil_conv)
  show ?thesis unfolding strip_chars_def True append_Nil e by simp
next
  case False
  with core have h: "\<not> p (hd core)" and l: "\<not> p (last core)" by simp_all
  have a: "dropWhile p (q1 @ core @ q2) = core @ q2"
    using q1 h False by (cases core) (simp_all add: dropWhile_all)
  have b: "dropWhile p (rev q2 @ rev core) = rev core"
    using q2 l False by (cases "rev core") (auto simp: dropWhile_all last_rev [symmetric] hd_rev)
  show ?thesis by (simp add: strip_chars_def a b)
qed

lemma strip_chars_inside:
  "\<exists>lead trail. s = lead @ strip_chars p s @ trail
     \<and> (\<forall>c \<in> set lead. p c) \<and> (\<forall>c \<in> set trail. p c)"
proof -
  let ?t = "dropWhile p s"
  have "rev (dropWhile p (rev ?t)) @ rev (takeWhile p (rev ?t)) = ?t"
    using arg_cong [OF takeWhile_dropWhile_id [of p "rev ?t"], of rev]
    by (simp only: rev_append rev_rev_ident)
  then have t: "?t = strip_chars p s @ rev (takeWhile p (rev ?t))"
    unfolding strip_chars_def by (rule sym)
  have "s = takeWhile p s @ ?t" by simp
  with t have "s = takeWhile p s @ strip_chars p s @ rev (takeWhile p (rev ?t))" by simp
  moreover have "\<forall>c \<in> set (takeWhile p s). p c" by (auto dest: set_takeWhileD)
  moreover have "\<forall>c \<in> set (rev (takeWhile p (rev ?t))). p c" by (auto dest: set_takeWhileD)
  ultimately show ?thesis by blast
qed

lemma first_part_no_separator:
  "\<forall>c \<in> set line. c \<notin> set seps \<Longrightarrow> first_part seps line = line"
  by (induction seps) auto

lemma quote_no_separator: "is_quote c \<Longrightarrow> c \<notin> set separators"
  by (auto simp: is_quote_def separators_def)

lemma py_strip_no_newline: "py_strip s \<noteq> [] \<Longrightarrow> last (py_strip s) \<noteq> CHR 0x0A"
proof
  assume ne: "py_strip s \<noteq> []" and nl: "last (py_strip s) = CHR 0x0A"
  from ne have "\<not> is_space (last (py_strip s))"
    unfolding py_strip_def by (simp add: strip_chars_edges)
  with nl show False by (simp add: is_space_def code_def)
qed

lemma valid_iff_stripped_matches: "is_valid_email s = matches_pattern (py_strip s)"
  unfolding is_valid_email_def re_match_dollar_def consumes_pattern
  using py_strip_no_newline [of s] by blast

lemmas char_class_defs =
  is_space_def is_quote_def alpha_def digit_def local_char_def domain_char_def code_def

lemmas matcher_defs =
  is_valid_email_def re_match_dollar_def pattern_def Plus_def AtLeast2_def Lit_def
  py_strip_def strip_chars_def

section \<open>The validator and the pattern (C4)\<close>

text \<open>
  C4, as the code has it. The validator strips the white space around the candidate
  before it matches: a candidate is classified Valid if and only if the candidate
  without its surrounding white space is one or more characters of
  \<open>[A-Za-z0-9._%+-]\<close>, an at sign, one or more characters of \<open>[A-Za-z0-9.-]\<close>, a dot
  and two or more letters, with nothing before or after.
\<close>

theorem validator_matches_stripped_candidate:
  "is_valid_email candidate = matches_pattern (py_strip candidate)"
  by (rule valid_iff_stripped_matches)

theorem validator_matches_stripped_candidate_witness:
  "is_valid_email '' a@b.com'' \<and> matches_pattern (py_strip '' a@b.com'')"
proof -
  have v: "is_valid_email '' a@b.com''"
    by (simp add: matcher_defs char_class_defs)
  with validator_matches_stripped_candidate [of "'' a@b.com''"] show ?thesis by simp
qed

text \<open>
  C4 as stated fails: the candidate \<open>" a@b.com"\<close>, with a space in front, is classified
  Valid although a space comes before the address.
\<close>

theorem validator_accepts_padded_candidate:
  "\<not> (is_valid_email '' a@b.com'' \<longleftrightarrow> matches_pattern '' a@b.com'')"
proof -
  have "is_valid_email '' a@b.com''"
    by (simp add: matcher_defs char_class_defs)
  moreover have "\<not> matches_pattern '' a@b.com''"
    unfolding consumes_pattern [symmetric] by (simp add: matcher_defs char_class_defs)
  ultimately show ?thesis by blast
qed

section \<open>Quotes around the candidate (C6)\<close>

text \<open>
  C6, as the code has it. \<open>strip('"\'')\<close> removes every leading and every trailing
  quote character, not one layer. The string that goes to the validator is what is
  left of the candidate of the separator split when a run of quote characters is
  taken from its front and one from its end, and it neither begins nor ends with a
  quote. So a string without separators and without quotes at its ends that is
  wrapped in any number of quote characters on either side comes out unwrapped: one
  pair of quotes and two pairs of quotes give the same unquoted string.
\<close>

theorem quotes_stripped_entirely:
  "(\<exists>lead trail. first_part separators line = lead @ possible_email line @ trail
       \<and> (\<forall>c \<in> set lead. is_quote c) \<and> (\<forall>c \<in> set trail. is_quote c))
   \<and> (possible_email line = []
      \<or> (\<not> is_quote (hd (possible_email line)) \<and> \<not> is_quote (last (possible_email line))))
   \<and> ((\<forall>c \<in> set before. is_quote c) \<and> (\<forall>c \<in> set after. is_quote c)
        \<and> (core = [] \<or> (\<not> is_quote (hd core) \<and> \<not> is_quote (last core)))
        \<and> (\<forall>c \<in> set core. c \<notin> set separators)
      \<longrightarrow> possible_email (before @ core @ after) = core)"
proof (intro conjI impI)
  show "\<exists>lead trail. first_part separators line = lead @ possible_email line @ trail
       \<and> (\<forall>c \<in> set lead. is_quote c) \<and> (\<forall>c \<in> set trail. is_quote c)"
    unfolding possible_email_def by (rule strip_chars_inside)
next
  show "possible_email line = []
      \<or> (\<not> is_quote (hd (possible_email line)) \<and> \<not> is_quote (last (possible_email line)))"
    using strip_chars_edges [of is_quote "first_part separators line"]
    unfolding possible_email_def by blast
next
  assume h: "(\<forall>c \<in> set before. is_quote c) \<and> (\<forall>c \<in> set after. is_quote c)
        \<and> (core = [] \<or> (\<not> is_quote (hd core) \<and> \<not> is_quote (last core)))
        \<and> (\<forall>c \<in> set core. c \<notin> set separators)"
  then have "\<forall>c \<in> set (before @ core @ after). c \<notin> set separators"
    using quote_no_separator by auto
  then have "first_part separators (before @ core @ after) = before @ core @ after"
    by (rule first_part_no_separator)
  with h strip_chars_wrapped [of before is_quote after core]
  show "possible_email (before @ core @ after) = core"
    unfolding possible_email_def by simp
qed

theorem quotes_stripped_entirely_witness:
  "possible_email ([CHR 0x22, CHR 0x22] @ ''user@example.com'' @ [CHR 0x22, CHR 0x22])
     = ''user@example.com''
   \<and> possible_email ([CHR 0x22] @ ''user@example.com'' @ [CHR 0x22]) = ''user@example.com''"
proof -
  have q2: "(\<forall>c \<in> set [CHR 0x22, CHR 0x22]. is_quote c)"
    and q1: "(\<forall>c \<in> set [CHR 0x22]. is_quote c)"
    by (simp_all add: is_quote_def)
  have core: "''user@example.com'' = [] \<or> (\<not> is_quote (hd ''user@example.com'')
          \<and> \<not> is_quote (last ''user@example.com''))"
    by (simp add: is_quote_def)
  have nosep: "\<forall>c \<in> set ''user@example.com''. c \<notin> set separators"
    by (simp add: separators_def)
  from quotes_stripped_entirely
    [of "[]" "[CHR 0x22, CHR 0x22]" "[CHR 0x22, CHR 0x22]" "''user@example.com''"]
    q2 core nosep
  have a: "possible_email ([CHR 0x22, CHR 0x22] @ ''user@example.com'' @ [CHR 0x22, CHR 0x22])
     = ''user@example.com''"
    by blast
  from quotes_stripped_entirely
    [of "[]" "[CHR 0x22]" "[CHR 0x22]" "''user@example.com''"]
    q1 core nosep
  have b: "possible_email ([CHR 0x22] @ ''user@example.com'' @ [CHR 0x22]) = ''user@example.com''"
    by blast
  from a b show ?thesis by blast
qed

text \<open>
  C6 as stated fails: the candidate \<open>""a@b.com""\<close>, wrapped in two pairs of double
  quotes, comes out as \<open>a@b.com\<close> and not wrapped in one pair.
\<close>

theorem two_quote_layers_both_stripped:
  "possible_email ([CHR 0x22, CHR 0x22] @ ''a@b.com'' @ [CHR 0x22, CHR 0x22]) = ''a@b.com''
   \<and> possible_email ([CHR 0x22, CHR 0x22] @ ''a@b.com'' @ [CHR 0x22, CHR 0x22])
     \<noteq> [CHR 0x22] @ ''a@b.com'' @ [CHR 0x22]"
  by (simp add: possible_email_def separators_def strip_chars_def is_quote_def)

section \<open>A configuration file without a required key (C7)\<close>

text \<open>
  C7, as the code has it. When the file exists and parses, \<open>load_config\<close> returns the
  parsed object as it is: it checks no key, substitutes no default and raises no
  error, whatever keys the object has.
\<close>

theorem load_config_returns_parsed_file:
  "path_exists w config_file \<Longrightarrow> json_load w config_file = Inr document
     \<Longrightarrow> load_config w config_file = Inr document"
  by (simp add: load_config_def)

theorem load_config_returns_parsed_file_witness:
  "path_exists (example_world [(''smtp_host'', JStr ''smtp.example.com'')] [] (\<lambda>r. accepting))
     ''config.json''
   \<and> load_config (example_world [(''smtp_host'', JStr ''smtp.example.com'')] [] (\<lambda>r. accepting))
       ''config.json'' = Inr [(''smtp_host'', JStr ''smtp.example.com'')]"
  using load_config_returns_parsed_file
    [of "example_world [(''smtp_host'', JStr ''smtp.example.com'')] [] (\<lambda>r. accepting)"
        "''config.json''" "[(''smtp_host'', JStr ''smtp.example.com'')]"]
  by (simp add: example_world_def)

text \<open>
  C7 as stated fails: a file that holds only \<open>smtp_host\<close> is loaded without an error,
  and the configuration that comes back has no \<open>smtp_port\<close>.
\<close>

theorem partial_config_is_loaded:
  "load_config (example_world [(''smtp_host'', JStr ''smtp.example.com'')] [] (\<lambda>r. accepting))
     ''config.json'' = Inr [(''smtp_host'', JStr ''smtp.example.com'')]
   \<and> map_of [(''smtp_host'', JStr ''smtp.example.com'')] ''smtp_port'' = None"
  by (simp add: load_config_def example_world_def)

section \<open>The loop over the lines\<close>

lemmas sender_update_defs =
  log_message_def log_email_status_def count_invalid_def count_duplicate_def
  count_sent_def count_failed_def

lemma candidates_Nil [simp]: "candidates [] = []"
  by (simp add: candidates_def)

lemma candidates_Cons:
  "candidates (raw # lines) =
     (if considered raw then possible_email (py_strip raw) # candidates lines
      else candidates lines)"
  by (simp add: candidates_def)

lemma process_line_skipped:
  "\<not> considered raw \<Longrightarrow> process_line n raw (em, st) = (em', st') \<Longrightarrow>
     em' = em \<and> processed_emails st' = processed_emails st \<and> stats st' = stats st
     \<and> config st' = config st \<and> sleeps st' = sleeps st"
  by (auto simp: process_line_def considered_def Let_def sender_update_defs split: if_splits)

lemma process_line_invalid:
  "considered raw \<Longrightarrow> \<not> is_valid_email (possible_email (py_strip raw)) \<Longrightarrow>
   process_line n raw (em, st) = (em', st') \<Longrightarrow>
     em' = em \<and> processed_emails st' = processed_emails st
     \<and> stats st' = (stats st)\<lparr>invalid := invalid (stats st) + 1\<rparr>
     \<and> config st' = config st \<and> sleeps st' = sleeps st"
  by (auto simp: process_line_def considered_def Let_def sender_update_defs split: if_splits)

lemma process_line_duplicate:
  "considered raw \<Longrightarrow> is_valid_email (possible_email (py_strip raw)) \<Longrightarrow>
   possible_email (py_strip raw) \<in> processed_emails st \<Longrightarrow>
   process_line n raw (em, st) = (em', st') \<Longrightarrow>
     em' = em \<and> processed_emails st' = processed_emails st
     \<and> stats st' = (stats st)\<lparr>duplicates := duplicates (stats st) + 1\<rparr>
     \<and> config st' = config st \<and> sleeps st' = sleeps st"
  by (auto simp: process_line_def considered_def Let_def sender_update_defs split: if_splits)

lemma process_line_valid:
  "considered raw \<Longrightarrow> is_valid_email (possible_email (py_strip raw)) \<Longrightarrow>
   possible_email (py_strip raw) \<notin> processed_emails st \<Longrightarrow>
   process_line n raw (em, st) = (em', st') \<Longrightarrow>
     em' = em @ [possible_email (py_strip raw)]
     \<and> processed_emails st' = insert (possible_email (py_strip raw)) (processed_emails st)
     \<and> stats st' = stats st
     \<and> config st' = config st \<and> sleeps st' = sleeps st"
  by (auto simp: process_line_def considered_def Let_def sender_update_defs split: if_splits)

lemma read_loop_effect:
  "read_loop n lines (em, st) = (em', st') \<Longrightarrow>
     em' = em @ accepted (processed_emails st) (candidates lines)
     \<and> processed_emails st' =
         processed_emails st \<union> set (accepted (processed_emails st) (candidates lines))
     \<and> invalid (stats st') =
         invalid (stats st)
           + int (length (filter (\<lambda>c. \<not> is_valid_email c) (candidates lines)))
     \<and> duplicates (stats st') =
         duplicates (stats st) + int (length (filter is_valid_email (candidates lines)))
           - int (length (accepted (processed_emails st) (candidates lines)))
     \<and> total (stats st') = total (stats st) \<and> sent (stats st') = sent (stats st)
     \<and> failed (stats st') = failed (stats st)
     \<and> config st' = config st \<and> sleeps st' = sleeps st"
proof (induction lines arbitrary: n em st)
  case Nil
  then show ?case by simp
next
  case (Cons raw lines)
  obtain em1 st1 where step: "process_line n raw (em, st) = (em1, st1)"
    by (cases "process_line n raw (em, st)")
  with Cons.prems have rest: "read_loop (Suc n) lines (em1, st1) = (em', st')" by simp
  note ih = Cons.IH [OF rest]
  let ?c = "possible_email (py_strip raw)"
  consider (skip) "\<not> considered raw"
    | (inv) "considered raw" "\<not> is_valid_email ?c"
    | (dup) "considered raw" "is_valid_email ?c" "?c \<in> processed_emails st"
    | (new) "considered raw" "is_valid_email ?c" "?c \<notin> processed_emails st"
    by blast
  then show ?case
  proof cases
    case skip
    from process_line_skipped [OF skip step] ih skip show ?thesis
      by (simp add: candidates_Cons)
  next
    case inv
    from process_line_invalid [OF inv step] ih inv show ?thesis
      by (simp add: candidates_Cons)
  next
    case dup
    from process_line_duplicate [OF dup step] ih dup show ?thesis
      by (simp add: candidates_Cons)
  next
    case new
    from process_line_valid [OF new step] ih new show ?thesis
      by (simp add: candidates_Cons)
  qed
qed


lemma set_accepted: "set (accepted seen cs) = {c \<in> set cs. is_valid_email c \<and> c \<notin> seen}"
  by (induction cs arbitrary: seen) auto

lemma distinct_accepted: "distinct (accepted seen cs)"
  by (induction cs arbitrary: seen) (auto simp: set_accepted)

lemma accepted_none: "(\<forall>c \<in> set cs. is_valid_email c \<longrightarrow> c \<in> seen) \<Longrightarrow> accepted seen cs = []"
  by (induction cs arbitrary: seen) auto

lemma length_accepted: "length (accepted seen cs) \<le> length (filter is_valid_email cs)"
proof (induction cs arbitrary: seen)
  case Nil
  show ?case by simp
next
  case (Cons c cs)
  from Cons.IH [of seen] Cons.IH [of "insert c seen"] show ?case by auto
qed

lemma first_index_Cons:
  "first_index (c # cs) x = (if x = c then 0 else Suc (first_index cs x))"
  by (auto simp: first_index_def)

lemma accepted_in_first_seen_order:
  "sorted_wrt (\<lambda>a b. first_index cs a < first_index cs b) (accepted seen cs)"
proof (induction cs arbitrary: seen)
  case Nil
  show ?case by simp
next
  case (Cons c cs)
  have shift: "sorted_wrt (\<lambda>a b. first_index (c # cs) a < first_index (c # cs) b) xs"
    if "sorted_wrt (\<lambda>a b. first_index cs a < first_index cs b) xs" and "c \<notin> set xs" for xs
    using that by (induction xs) (auto simp: first_index_Cons)
  show ?case
  proof (cases "is_valid_email c \<and> c \<notin> seen")
    case True
    have notin: "c \<notin> set (accepted (insert c seen) cs)" by (simp add: set_accepted)
    from shift [OF Cons.IH [of "insert c seen"] notin] True notin show ?thesis
      by (auto simp: first_index_Cons)
  next
    case False
    then have notin: "c \<notin> set (accepted seen cs)" by (auto simp: set_accepted)
    from shift [OF Cons.IH [of seen] notin] False show ?thesis by auto
  qed
qed

lemma length_candidates: "length (candidates lines) = length (filter considered lines)"
  by (simp add: candidates_def)

lemma length_filter_split:
  "length (filter p xs) + length (filter (\<lambda>x. \<not> p x) xs) = length xs"
  by (induction xs) auto

lemma read_emails_effect:
  assumes "read_emails_from_csv w csv_file st = (emails, st')"
  shows "emails = accepted (processed_emails st) (candidates (lines_of w csv_file))
     \<and> processed_emails st' = processed_emails st \<union> set emails
     \<and> invalid (stats st') =
         invalid (stats st)
           + int (length (filter (\<lambda>c. \<not> is_valid_email c) (candidates (lines_of w csv_file))))
     \<and> duplicates (stats st') =
         duplicates (stats st)
           + int (length (filter is_valid_email (candidates (lines_of w csv_file))))
           - int (length emails)
     \<and> total (stats st') = total (stats st) \<and> sent (stats st') = sent (stats st)
     \<and> failed (stats st') = failed (stats st)
     \<and> config st' = config st \<and> sleeps st' = sleeps st"
proof (cases "readlines w csv_file")
  case (Inl e)
  with assms show ?thesis
    by (auto simp: read_emails_from_csv_def lines_of_def log_message_def split: if_splits)
next
  case (Inr lines)
  obtain em1 st1 where
    loop: "read_loop 1 lines ([], log_message (ReadingLines (length lines) csv_file) st) = (em1, st1)"
    by (cases "read_loop 1 lines ([], log_message (ReadingLines (length lines) csv_file) st)")
  from assms Inr loop have out: "emails = em1" "st' = log_message (LoadedValid (length em1)) st1"
    by (auto simp: read_emails_from_csv_def)
  from read_loop_effect [OF loop] out Inr show ?thesis
    by (simp add: lines_of_def log_message_def)
qed

lemma process_line_classifies:
  assumes "considered raw"
  shows "\<exists>!k. classified_as k n (possible_email (py_strip raw)) acc (process_line n raw acc)"
proof -
  obtain em st where acc: "acc = (em, st)" by (cases acc)
  let ?c = "possible_email (py_strip raw)"
  have one: "\<exists>k. classified_as k n ?c acc (process_line n raw acc)"
  proof -
    consider (inv) "\<not> is_valid_email ?c"
      | (dup) "is_valid_email ?c" "?c \<in> processed_emails st"
      | (new) "is_valid_email ?c" "?c \<notin> processed_emails st"
      by blast
    then show ?thesis
    proof cases
      case inv
      with assms have "classified_as Invalid n ?c acc (process_line n raw acc)"
        by (simp add: acc classified_as_def process_line_def considered_def Let_def
            sender_update_defs)
      then show ?thesis ..
    next
      case dup
      with assms have "classified_as Duplicate n ?c acc (process_line n raw acc)"
        by (simp add: acc classified_as_def process_line_def considered_def Let_def
            sender_update_defs)
      then show ?thesis ..
    next
      case new
      with assms have "classified_as Valid n ?c acc (process_line n raw acc)"
        by (simp add: acc classified_as_def process_line_def considered_def Let_def
            sender_update_defs)
      then show ?thesis ..
    qed
  qed
  have unique: "k = k'"
    if "classified_as k n ?c acc (process_line n raw acc)"
      and "classified_as k' n ?c acc (process_line n raw acc)" for k k'
    using that
    by (cases "process_line n raw acc"; cases k; cases k') (auto simp: acc classified_as_def)
  from one unique show ?thesis by blast
qed

section \<open>Unique valid addresses in first-seen order (C1)\<close>

text \<open>
  C1. Whatever the file and the state of the sender, the list that
  \<open>read_emails_from_csv\<close> returns has no duplicates, each of its elements passes the
  validator, it holds exactly the valid candidates of the considered lines that
  were not yet in the set of processed addresses, and its elements stand in the
  order of their first occurrence among the lines.
\<close>

theorem extraction_unique_valid_first_seen:
  assumes "read_emails_from_csv w csv_file st = (emails, st')"
  shows "distinct emails
     \<and> (\<forall>e \<in> set emails. is_valid_email e)
     \<and> set emails = {c \<in> set (candidates (lines_of w csv_file)).
                       is_valid_email c \<and> c \<notin> processed_emails st}
     \<and> sorted_wrt (\<lambda>a b. first_index (candidates (lines_of w csv_file)) a
                          < first_index (candidates (lines_of w csv_file)) b) emails"
proof -
  from read_emails_effect [OF assms]
  have e: "emails = accepted (processed_emails st) (candidates (lines_of w csv_file))" by simp
  show ?thesis
    unfolding e
    using distinct_accepted set_accepted accepted_in_first_seen_order by auto
qed

theorem extraction_unique_valid_first_seen_witness:
  "fst (read_emails_from_csv scenario_world ''emails.csv'' (fresh_sender (full_config 90))) = [''alice@test.com'', ''bob@test.com'']
   \<and> distinct (fst (read_emails_from_csv scenario_world ''emails.csv'' (fresh_sender (full_config 90))))
   \<and> is_valid_email ''alice@test.com'' \<and> is_valid_email ''bob@test.com''"
proof -
  have v: "fst (read_emails_from_csv scenario_world ''emails.csv'' (fresh_sender (full_config 90))) = [''alice@test.com'', ''bob@test.com'']"
    by code_simp
  from extraction_unique_valid_first_seen [OF surjective_pairing]
  have "distinct (fst (read_emails_from_csv scenario_world ''emails.csv'' (fresh_sender (full_config 90)))) \<and> (\<forall>e \<in> set (fst (read_emails_from_csv scenario_world ''emails.csv'' (fresh_sender (full_config 90)))). is_valid_email e)"
    by blast
  with v show ?thesis by simp
qed

section \<open>Every considered line is counted once (C2)\<close>

text \<open>
  C2. A turn of the loop on a line that is neither empty nor a header gives the line
  exactly one of the classifications Invalid, Duplicate and Valid, and at the end of
  the extraction the lines counted invalid, the lines counted duplicate and the
  addresses returned add up to the number of such lines; on a sender whose two
  counters are still zero these are the counters themselves.
\<close>

theorem extraction_counts_every_line_once:
  assumes "read_emails_from_csv w csv_file st = (emails, st')"
  shows "(\<forall>n raw acc. considered raw \<longrightarrow>
            (\<exists>!k. classified_as k n (possible_email (py_strip raw)) acc (process_line n raw acc)))
     \<and> (invalid (stats st') - invalid (stats st))
         + (duplicates (stats st') - duplicates (stats st)) + int (length emails)
       = int (length (filter considered (lines_of w csv_file)))
     \<and> (invalid (stats st) = 0 \<and> duplicates (stats st) = 0 \<longrightarrow>
          invalid (stats st') + duplicates (stats st') + int (length emails)
            = int (length (filter considered (lines_of w csv_file))))"
proof -
  let ?cs = "candidates (lines_of w csv_file)"
  from read_emails_effect [OF assms]
  have i: "invalid (stats st') =
      invalid (stats st) + int (length (filter (\<lambda>c. \<not> is_valid_email c) ?cs))"
    and d: "duplicates (stats st') =
      duplicates (stats st) + int (length (filter is_valid_email ?cs)) - int (length emails)"
    by simp_all
  have "int (length (filter is_valid_email ?cs))
      + int (length (filter (\<lambda>c. \<not> is_valid_email c) ?cs)) = int (length ?cs)"
    using length_filter_split [of is_valid_email ?cs] by linarith
  with i d have sum: "(invalid (stats st') - invalid (stats st))
         + (duplicates (stats st') - duplicates (stats st)) + int (length emails)
       = int (length (filter considered (lines_of w csv_file)))"
    by (simp add: length_candidates)
  from sum process_line_classifies show ?thesis by auto
qed

theorem extraction_counts_every_line_once_witness:
  "stats (snd (read_emails_from_csv scenario_world ''emails.csv'' (fresh_sender (full_config 90)))) = \<lparr>total = 0, sent = 0, failed = 0, invalid = 1, duplicates = 1\<rparr>
   \<and> length (filter considered scenario_lines) = 4
   \<and> invalid (stats (snd (read_emails_from_csv scenario_world ''emails.csv'' (fresh_sender (full_config 90))))) + duplicates (stats (snd (read_emails_from_csv scenario_world ''emails.csv'' (fresh_sender (full_config 90))))) + int (length (fst (read_emails_from_csv scenario_world ''emails.csv'' (fresh_sender (full_config 90)))))
     = int (length (filter considered (lines_of scenario_world ''emails.csv'')))"
proof -
  have a: "stats (snd (read_emails_from_csv scenario_world ''emails.csv'' (fresh_sender (full_config 90)))) = \<lparr>total = 0, sent = 0, failed = 0, invalid = 1, duplicates = 1\<rparr>"
    by code_simp
  have b: "length (filter considered scenario_lines) = 4"
    by code_simp
  have c: "invalid (stats (fresh_sender (full_config 90))) = 0
      \<and> duplicates (stats (fresh_sender (full_config 90))) = 0"
    by (simp add: fresh_sender_def)
  from extraction_counts_every_line_once [OF surjective_pairing] c
  have "invalid (stats (snd (read_emails_from_csv scenario_world ''emails.csv'' (fresh_sender (full_config 90))))) + duplicates (stats (snd (read_emails_from_csv scenario_world ''emails.csv'' (fresh_sender (full_config 90))))) + int (length (fst (read_emails_from_csv scenario_world ''emails.csv'' (fresh_sender (full_config 90)))))
     = int (length (filter considered (lines_of scenario_world ''emails.csv'')))"
    by blast
  with a b show ?thesis by blast
qed

section \<open>Reading the same source twice (C8)\<close>

text \<open>
  C8. When one sender reads the same source a second time, the second extraction
  returns no address: every valid candidate is counted as a duplicate and every
  other candidate as invalid again. The set of processed addresses is kept from one
  call to the next and only grows.
\<close>

theorem second_pass_all_duplicates:
  assumes first: "read_emails_from_csv w csv_file st = (emails1, st1)"
    and second: "read_emails_from_csv w csv_file st1 = (emails2, st2)"
  shows "emails2 = []
     \<and> processed_emails st \<subseteq> processed_emails st1
     \<and> processed_emails st1 \<subseteq> processed_emails st2
     \<and> duplicates (stats st2) - duplicates (stats st1)
         = int (length (filter is_valid_email (candidates (lines_of w csv_file))))
     \<and> invalid (stats st2) - invalid (stats st1)
         = int (length (filter (\<lambda>c. \<not> is_valid_email c) (candidates (lines_of w csv_file))))"
proof -
  let ?cs = "candidates (lines_of w csv_file)"
  from read_emails_effect [OF first]
  have e1: "emails1 = accepted (processed_emails st) ?cs"
    and p1: "processed_emails st1 = processed_emails st \<union> set emails1"
    by simp_all
  have known: "\<forall>c \<in> set ?cs. is_valid_email c \<longrightarrow> c \<in> processed_emails st1"
    unfolding p1 e1 set_accepted by blast
  from read_emails_effect [OF second]
  have e2: "emails2 = accepted (processed_emails st1) ?cs"
    and p2: "processed_emails st2 = processed_emails st1 \<union> set emails2"
    and d2: "duplicates (stats st2) =
        duplicates (stats st1) + int (length (filter is_valid_email ?cs)) - int (length emails2)"
    and i2: "invalid (stats st2) =
        invalid (stats st1) + int (length (filter (\<lambda>c. \<not> is_valid_email c) ?cs))"
    by simp_all
  from e2 accepted_none [OF known] have none: "emails2 = []" by simp
  from none p1 p2 d2 i2 show ?thesis by simp
qed

theorem second_pass_all_duplicates_witness:
  "fst (read_emails_from_csv scenario_world ''emails.csv'' (fresh_sender (full_config 90))) = [''alice@test.com'', ''bob@test.com'']
   \<and> fst (read_emails_from_csv scenario_world ''emails.csv'' (snd (read_emails_from_csv scenario_world ''emails.csv'' (fresh_sender (full_config 90))))) = []
   \<and> duplicates (stats (snd (read_emails_from_csv scenario_world ''emails.csv'' (snd (read_emails_from_csv scenario_world ''emails.csv'' (fresh_sender (full_config 90)))))))
       - duplicates (stats (snd (read_emails_from_csv scenario_world ''emails.csv'' (fresh_sender (full_config 90))))) = 3"
proof -
  have a: "fst (read_emails_from_csv scenario_world ''emails.csv'' (fresh_sender (full_config 90))) = [''alice@test.com'', ''bob@test.com'']"
    by code_simp
  have b: "int (length (filter is_valid_email (candidates (lines_of scenario_world ''emails.csv''))))
      = 3"
    by code_simp
  from second_pass_all_duplicates [OF surjective_pairing surjective_pairing] a b
  show ?thesis by metis
qed

section \<open>White space inside the quotes (C10)\<close>

text \<open>
  C10, as the code has it. The validator strips the candidate, the loop does not.
  When the candidate of a considered line is an address that matches the pattern
  with white space around it, the line is never counted invalid, and the set of
  processed addresses is asked for the candidate with its white space: if that very
  string is not in the set, it is appended with its white space, goes into the set,
  and no counter moves, whether or not the address without the white space is in
  the set; if that very string is in the set already, the line is counted as a
  duplicate and nothing is appended.
\<close>

theorem padded_candidate_kept_as_it_is:
  assumes "considered raw"
    and "matches_pattern (py_strip (possible_email (py_strip raw)))"
  shows "(possible_email (py_strip raw) \<notin> processed_emails st \<longrightarrow>
       fst (process_line n raw (emails, st)) = emails @ [possible_email (py_strip raw)]
       \<and> processed_emails (snd (process_line n raw (emails, st)))
           = insert (possible_email (py_strip raw)) (processed_emails st)
       \<and> stats (snd (process_line n raw (emails, st))) = stats st)
     \<and> (possible_email (py_strip raw) \<in> processed_emails st \<longrightarrow>
       fst (process_line n raw (emails, st)) = emails
       \<and> processed_emails (snd (process_line n raw (emails, st))) = processed_emails st
       \<and> stats (snd (process_line n raw (emails, st)))
           = (stats st)\<lparr>duplicates := duplicates (stats st) + 1\<rparr>)"
proof -
  from assms(2) have v: "is_valid_email (possible_email (py_strip raw))"
    by (simp add: valid_iff_stripped_matches)
  have new: "possible_email (py_strip raw) \<notin> processed_emails st \<Longrightarrow>
       fst (process_line n raw (emails, st)) = emails @ [possible_email (py_strip raw)]
       \<and> processed_emails (snd (process_line n raw (emails, st)))
           = insert (possible_email (py_strip raw)) (processed_emails st)
       \<and> stats (snd (process_line n raw (emails, st))) = stats st"
    using process_line_valid [OF assms(1) v _ surjective_pairing] by blast
  have old: "possible_email (py_strip raw) \<in> processed_emails st \<Longrightarrow>
       fst (process_line n raw (emails, st)) = emails
       \<and> processed_emails (snd (process_line n raw (emails, st))) = processed_emails st
       \<and> stats (snd (process_line n raw (emails, st)))
           = (stats st)\<lparr>duplicates := duplicates (stats st) + 1\<rparr>"
    using process_line_duplicate [OF assms(1) v _ surjective_pairing] by blast
  from new old show ?thesis by blast
qed

theorem padded_candidate_kept_as_it_is_witness:
  "considered padded_line
   \<and> possible_email (py_strip padded_line) = '' a@b.com''
   \<and> py_strip '' a@b.com'' \<in> processed_emails (sender_knowing ''a@b.com'')
   \<and> fst (process_line 2 padded_line ([''a@b.com''], sender_knowing ''a@b.com''))
       = [''a@b.com''] @ [possible_email (py_strip padded_line)]"
proof -
  have a: "considered padded_line" by code_simp
  have b: "possible_email (py_strip padded_line) = '' a@b.com''" by code_simp
  have "is_valid_email '' a@b.com''" by code_simp
  with b have c: "matches_pattern (py_strip (possible_email (py_strip padded_line)))"
    by (simp add: valid_iff_stripped_matches)
  have d: "possible_email (py_strip padded_line) \<notin> processed_emails (sender_knowing ''a@b.com'')"
    unfolding b by (simp add: sender_knowing_def)
  have e: "py_strip '' a@b.com'' \<in> processed_emails (sender_knowing ''a@b.com'')"
    by code_simp
  from padded_candidate_kept_as_it_is
    [OF a c, of "sender_knowing ''a@b.com''" 2 "[''a@b.com'']"] d a b e
  show ?thesis by blast
qed

text \<open>
  C10 as stated fails: in a source that holds the padded line \<open>" a@b.com"\<close> twice, the
  second line meets the conditions of the claim and is counted as a duplicate, not
  appended.
\<close>

theorem repeated_padded_candidate_is_duplicate:
  "considered padded_line
   \<and> possible_email (py_strip padded_line) = '' a@b.com''
   \<and> matches_pattern (py_strip '' a@b.com'')
   \<and> fst (read_emails_from_csv repeated_padded_world ''emails.csv''
        (fresh_sender (full_config 90))) = ['' a@b.com'']
   \<and> duplicates (stats (snd (read_emails_from_csv repeated_padded_world ''emails.csv''
        (fresh_sender (full_config 90))))) = 1"
proof -
  have "considered padded_line" by code_simp
  moreover have "possible_email (py_strip padded_line) = '' a@b.com''" by code_simp
  moreover have "is_valid_email '' a@b.com''" by code_simp
  then have "matches_pattern (py_strip '' a@b.com'')" by (simp add: valid_iff_stripped_matches)
  moreover have "fst (read_emails_from_csv repeated_padded_world ''emails.csv''
        (fresh_sender (full_config 90))) = ['' a@b.com'']"
    by code_simp
  moreover have "duplicates (stats (snd (read_emails_from_csv repeated_padded_world ''emails.csv''
        (fresh_sender (full_config 90))))) = 1"
    by code_simp
  ultimately show ?thesis by blast
qed

section \<open>Dispatching\<close>

lemma send_single_email_effect:
  assumes "send_single_email w recipient st = (ok, st')"
  shows "config st' = config st \<and> sleeps st' = sleeps st
     \<and> processed_emails st' = processed_emails st
     \<and> total (stats st') = total (stats st)
     \<and> invalid (stats st') = invalid (stats st)
     \<and> duplicates (stats st') = duplicates (stats st)
     \<and> (if ok then sent (stats st') = sent (stats st) + 1 \<and> failed (stats st') = failed (stats st)
         else sent (stats st') = sent (stats st) \<and> failed (stats st') = failed (stats st) + 1)"
  using assms
  by (auto simp: send_single_email_def sender_update_defs split: sum.splits if_splits)


lemma send_loop_last:
  "send_single_email w email (log_message (ProcessingEmail i n email) st) = (ok, st1) \<Longrightarrow>
   \<not> i < n \<Longrightarrow> send_loop w i n (email # rest) st = send_loop w (Suc i) n rest st1"
  by simp

lemma send_loop_abort:
  "send_single_email w email (log_message (ProcessingEmail i n email) st) = (ok, st1) \<Longrightarrow>
   i < n \<Longrightarrow> config_get (config st1) ''delay_seconds'' = Inr d \<Longrightarrow>
   time_sleep w d = Some e \<Longrightarrow>
   send_loop w i n (email # rest) st = (Some e, log_message (Waiting d) st1)"
  by simp

lemma send_loop_next:
  "send_single_email w email (log_message (ProcessingEmail i n email) st) = (ok, st1) \<Longrightarrow>
   i < n \<Longrightarrow> config_get (config st1) ''delay_seconds'' = Inr d \<Longrightarrow>
   time_sleep w d = None \<Longrightarrow>
   send_loop w i n (email # rest) st =
     send_loop w (Suc i) n rest ((log_message (Waiting d) st1)\<lparr>sleeps := sleeps st1 @ [d]\<rparr>)"
  by simp

lemma send_loop_effect:
  assumes "send_loop w i n emails st = (r, st')"
    and "i + length emails = Suc n"
    and "config_get (config st) ''delay_seconds'' = Inr d"
  shows "same_but_counts st st' \<and> (\<exists>m. loop_count w d emails r st st' m)"
  using assms
proof (induction emails arbitrary: i st)
  case Nil
  then have "r = None" "st' = st" by simp_all
  then have "loop_count w d [] r st st' 0" "same_but_counts st st'"
    by (simp_all add: loop_count_def same_but_counts_def)
  then show ?case by blast
next
  case (Cons email rest)
  obtain ok st1 where
    one: "send_single_email w email (log_message (ProcessingEmail i n email) st) = (ok, st1)"
    by (cases "send_single_email w email (log_message (ProcessingEmail i n email) st)")
  from send_single_email_effect [OF one]
  have keep: "same_but_counts st st1" and sl1: "sleeps st1 = sleeps st"
    and count: "sent (stats st1) + failed (stats st1) = sent (stats st) + failed (stats st) + 1"
    by (auto simp: log_message_def same_but_counts_def split: if_splits)
  from Cons.prems(3) keep have delay: "config_get (config st1) ''delay_seconds'' = Inr d"
    by (simp add: same_but_counts_def)
  show ?case
  proof (cases "i < n")
    case False
    with Cons.prems(2) have rest: "rest = []" by (cases rest) auto
    have "send_loop w i n (email # rest) st = (None, st1)"
      unfolding send_loop_last [OF one False] rest by simp
    with Cons.prems(1) have res: "r = None" "st' = st1" by simp_all
    have "loop_count w d (email # rest) r st st' 1"
      unfolding res rest loop_count_def using sl1 count by simp
    with keep res show ?thesis by blast
  next
    case True
    with Cons.prems(2) have rest: "rest \<noteq> []" by auto
    show ?thesis
    proof (cases "time_sleep w d")
      case (Some e)
      from Cons.prems(1) send_loop_abort [OF one True delay Some]
      have res: "r = Some e" "st' = log_message (Waiting d) st1" by simp_all
      have "loop_count w d (email # rest) r st st' 1"
        unfolding res loop_count_def using sl1 count Some by (simp add: log_message_def)
      moreover have "same_but_counts st st'"
        unfolding res using keep by (simp add: same_but_counts_def log_message_def)
      ultimately show ?thesis by blast
    next
      case None
      let ?st2 = "(log_message (Waiting d) st1)\<lparr>sleeps := sleeps st1 @ [d]\<rparr>"
      from Cons.prems(1) send_loop_next [OF one True delay None]
      have loop: "send_loop w (Suc i) n rest ?st2 = (r, st')" by simp
      from Cons.prems(2) have len: "Suc i + length rest = Suc n" by simp
      from delay have delay2: "config_get (config ?st2) ''delay_seconds'' = Inr d"
        by (simp add: log_message_def)
      from Cons.IH [OF loop len delay2] obtain m where
        same: "same_but_counts ?st2 st'" and m: "loop_count w d rest r ?st2 st' m"
        by blast
      from m rest have m1: "1 \<le> m" by (simp add: loop_count_def)
      then have rep: "[d] @ replicate (m - 1) d = replicate m d"
        by (cases m) simp_all
      from m have sl: "sleeps st' = (sleeps st1 @ [d]) @ replicate (m - 1) d"
        by (simp add: loop_count_def log_message_def)
      have sl': "sleeps st' = sleeps st @ replicate (Suc m - 1) d"
        unfolding sl sl1 using rep by simp
      from m count have cnt: "sent (stats st') + failed (stats st')
          = sent (stats st) + failed (stats st) + int (Suc m)"
        by (simp add: loop_count_def log_message_def)
      from m have fin: "m \<le> length rest" "r = None \<longrightarrow> m = length rest"
          "time_sleep w d = None \<longrightarrow> r = None"
        by (simp_all add: loop_count_def)
      have "loop_count w d (email # rest) r st st' (Suc m)"
        unfolding loop_count_def using sl' cnt fin by simp
      moreover have "same_but_counts st st'"
        using same keep by (simp add: same_but_counts_def log_message_def)
      ultimately show ?thesis by blast
    qed
  qed
qed

lemma print_summary_effect:
  "stats (print_summary st) = stats st \<and> sleeps (print_summary st) = sleeps st
   \<and> config (print_summary st) = config st
   \<and> processed_emails (print_summary st) = processed_emails st"
  by (simp add: print_summary_def log_message_def)

lemma logging_keeps_emails:
  "processed_emails st2 = processed_emails st \<Longrightarrow>
   fst (read_emails_from_csv w csv_file st2) = fst (read_emails_from_csv w csv_file st)"
  using read_emails_effect [OF surjective_pairing, of w csv_file st]
    read_emails_effect [OF surjective_pairing, of w csv_file st2]
  by simp

lemma process_emails_effect:
  assumes run: "process_emails w csv_file st = (r, st')"
    and delay: "config_get (config st) ''delay_seconds'' = Inr d"
  shows "config st' = config st
     \<and> total (stats st') = int (length (fst (read_emails_from_csv w csv_file st)))
     \<and> (\<exists>m. loop_count w d (fst (read_emails_from_csv w csv_file st)) r st st' m)"
proof -
  obtain emails st1 where rd: "read_emails_from_csv w csv_file st = (emails, st1)"
    by (cases "read_emails_from_csv w csv_file st")
  let ?st2 = "st1\<lparr>stats := (stats st1)\<lparr>total := int (length emails)\<rparr>\<rparr>"
  from read_emails_effect [OF rd]
  have keep: "config st1 = config st" "sleeps st1 = sleeps st"
      "sent (stats st1) = sent (stats st)" "failed (stats st1) = failed (stats st)"
    by simp_all
  show ?thesis
  proof (cases "emails = []")
    case True
    with run rd have res: "r = None" "st' = log_message NoValidEmails ?st2"
      by (simp_all add: process_emails_def)
    have "loop_count w d [] r st st' 0"
      unfolding res loop_count_def using keep by (simp add: log_message_def)
    with True rd keep res show ?thesis by (auto simp: log_message_def)
  next
    case False
    with run rd have loop: "send_loop w 1 (length emails) emails ?st2 = (r, st')"
      by (simp add: process_emails_def)
    have len: "1 + length emails = Suc (length emails)" by simp
    from delay keep have delay2: "config_get (config ?st2) ''delay_seconds'' = Inr d" by simp
    from send_loop_effect [OF loop len delay2] obtain m where
      same: "same_but_counts ?st2 st'" and m: "loop_count w d emails r ?st2 st' m"
      by blast
    from m keep have "loop_count w d emails r st st' m"
      by (simp add: loop_count_def)
    moreover from same keep have "config st' = config st" "total (stats st') = int (length emails)"
      by (simp_all add: same_but_counts_def)
    ultimately show ?thesis using rd by auto
  qed
qed

lemma send_emails_effect:
  assumes run: "send_emails_from_csv w csv_file st = (None, st')"
    and delay: "config_get (config st) ''delay_seconds'' = Inr d"
  shows "total (stats st') = int (length (fst (read_emails_from_csv w csv_file st)))
     \<and> (\<exists>m r. loop_count w d (fst (read_emails_from_csv w csv_file st)) r st st' m)"
proof -
  from run obtain host port username where
    keys: "config_get (config st) ''smtp_host'' = Inr host"
      "config_get (config st) ''smtp_port'' = Inr port"
      "config_get (config st) ''username'' = Inr username"
    by (auto simp: send_emails_from_csv_def Let_def bind_def log_message_def split: sum.splits)
  let ?st4 = "log_message (DelayBetween d) (log_message (SenderIs username)
      (log_message (UsingHost host port) (log_message ProcessStarted st)))"
  obtain r st5 where body: "process_emails w csv_file ?st4 = (r, st5)"
    by (cases "process_emails w csv_file ?st4")
  have same: "processed_emails ?st4 = processed_emails st" "config ?st4 = config st"
      "sleeps ?st4 = sleeps st" "stats ?st4 = stats st"
    by (simp_all add: log_message_def)
  from run keys delay body
  have out: "st' = print_summary st5 \<or> (\<exists>t. st' = print_summary (log_message (CriticalError t) st5))"
    by (cases r) (auto simp: send_emails_from_csv_def Let_def bind_def log_message_def)
  then have st': "stats st' = stats st5" "sleeps st' = sleeps st5"
    by (auto simp: print_summary_effect log_message_def)
  from delay same have delay4: "config_get (config ?st4) ''delay_seconds'' = Inr d" by simp
  from process_emails_effect [OF body delay4] obtain m where
    tot: "total (stats st5) = int (length (fst (read_emails_from_csv w csv_file ?st4)))"
    and m: "loop_count w d (fst (read_emails_from_csv w csv_file ?st4)) r ?st4 st5 m"
    by blast
  have em: "fst (read_emails_from_csv w csv_file ?st4) = fst (read_emails_from_csv w csv_file st)"
    by (rule logging_keeps_emails) (rule same(1))
  from m have "loop_count w d (fst (read_emails_from_csv w csv_file st)) r st st' m"
    unfolding em loop_count_def st' same by simp
  with tot em st' show ?thesis by auto
qed

section \<open>The totals of a run (C3)\<close>

text \<open>
  C3, as the code has it. When \<open>send_emails_from_csv\<close> returns, \<open>total\<close> is the length of
  the list of unique valid addresses that the extraction produced, so invalid and
  duplicate lines are not in it. \<open>sent + failed\<close> has grown by the number of
  recipients dispatched, which is at most \<open>total\<close>; it has grown by exactly \<open>total\<close>
  when \<open>time.sleep\<close> accepts the configured delay or there is at most one recipient,
  and then \<open>total = sent + failed\<close> on a sender whose two counters started at zero,
  as \<open>__init__\<close> leaves them. An exception of \<open>time.sleep\<close> ends the loop early, and
  the summary is printed all the same.
\<close>

theorem summary_total_and_outcomes:
  assumes run: "send_emails_from_csv w csv_file st = (None, st')"
    and delay: "config_get (config st) ''delay_seconds'' = Inr d"
  shows "total (stats st') = int (length (fst (read_emails_from_csv w csv_file st)))
     \<and> sent (stats st) + failed (stats st) \<le> sent (stats st') + failed (stats st')
     \<and> sent (stats st') + failed (stats st')
         \<le> sent (stats st) + failed (stats st) + total (stats st')
     \<and> (time_sleep w d = None \<or> length (fst (read_emails_from_csv w csv_file st)) \<le> 1 \<longrightarrow>
          sent (stats st') + failed (stats st')
            = sent (stats st) + failed (stats st) + total (stats st'))
     \<and> ((time_sleep w d = None \<or> length (fst (read_emails_from_csv w csv_file st)) \<le> 1)
          \<and> sent (stats st) = 0 \<and> failed (stats st) = 0 \<longrightarrow>
          total (stats st') = sent (stats st') + failed (stats st'))"
proof -
  let ?N = "length (fst (read_emails_from_csv w csv_file st))"
  from send_emails_effect [OF run delay] obtain m r where
    tot: "total (stats st') = int ?N"
    and m: "loop_count w d (fst (read_emails_from_csv w csv_file st)) r st st' m"
    by blast
  from m have le: "m \<le> ?N"
    and pos: "?N \<noteq> 0 \<longrightarrow> 1 \<le> m"
    and cnt: "sent (stats st') + failed (stats st') = sent (stats st) + failed (stats st) + int m"
    and ok: "time_sleep w d = None \<longrightarrow> m = ?N"
    by (auto simp: loop_count_def)
  from le pos have small: "?N \<le> 1 \<longrightarrow> m = ?N" by auto
  from tot le cnt ok small show ?thesis by auto
qed

theorem summary_total_and_outcomes_witness:
  "fst (send_emails_from_csv scenario_world ''emails.csv'' (fresh_sender (full_config 90))) = None
   \<and> config_get (config (fresh_sender (full_config 90))) ''delay_seconds'' = Inr (JInt 90)
   \<and> time_sleep scenario_world (JInt 90) = None
   \<and> total (stats (snd (send_emails_from_csv scenario_world ''emails.csv'' (fresh_sender (full_config 90))))) = 2
   \<and> total (stats (snd (send_emails_from_csv scenario_world ''emails.csv'' (fresh_sender (full_config 90))))) = sent (stats (snd (send_emails_from_csv scenario_world ''emails.csv'' (fresh_sender (full_config 90))))) + failed (stats (snd (send_emails_from_csv scenario_world ''emails.csv'' (fresh_sender (full_config 90)))))"
proof -
  have r: "fst (send_emails_from_csv scenario_world ''emails.csv'' (fresh_sender (full_config 90))) = None" by code_simp
  then have run: "send_emails_from_csv scenario_world ''emails.csv'' (fresh_sender (full_config 90)) = (None, snd (send_emails_from_csv scenario_world ''emails.csv'' (fresh_sender (full_config 90))))" by (metis prod.collapse)
  have d: "config_get (config (fresh_sender (full_config 90))) ''delay_seconds'' = Inr (JInt 90)"
    by code_simp
  have ok: "time_sleep scenario_world (JInt 90) = None" by code_simp
  have zero: "sent (stats (fresh_sender (full_config 90))) = 0
      \<and> failed (stats (fresh_sender (full_config 90))) = 0"
    by (simp add: fresh_sender_def)
  have t: "total (stats (snd (send_emails_from_csv scenario_world ''emails.csv'' (fresh_sender (full_config 90))))) = 2" by code_simp
  from summary_total_and_outcomes [OF run d] ok zero
  have "total (stats (snd (send_emails_from_csv scenario_world ''emails.csv'' (fresh_sender (full_config 90))))) = sent (stats (snd (send_emails_from_csv scenario_world ''emails.csv'' (fresh_sender (full_config 90))))) + failed (stats (snd (send_emails_from_csv scenario_world ''emails.csv'' (fresh_sender (full_config 90)))))"
    by blast
  with r d ok t show ?thesis by blast
qed

text \<open>
  C3 as stated fails: with \<open>delay_seconds\<close> set to -1 and two valid recipients,
  \<open>time.sleep\<close> raises after the first send; the run ends with the summary, where
  \<open>total\<close> is 2 and \<open>sent + failed\<close> is 1.
\<close>

theorem aborted_run_total_exceeds_outcomes:
  "EmailSender_init negative_delay_world ''config.json'' = Inr (fresh_sender (full_config (- 1)))
   \<and> fst (send_emails_from_csv negative_delay_world ''emails.csv'' (fresh_sender (full_config (- 1)))) = None
   \<and> total (stats (snd (send_emails_from_csv negative_delay_world ''emails.csv'' (fresh_sender (full_config (- 1)))))) = 2
   \<and> sent (stats (snd (send_emails_from_csv negative_delay_world ''emails.csv'' (fresh_sender (full_config (- 1)))))) + failed (stats (snd (send_emails_from_csv negative_delay_world ''emails.csv'' (fresh_sender (full_config (- 1)))))) = 1"
proof -
  have "EmailSender_init negative_delay_world ''config.json''
      = Inr (fresh_sender (full_config (- 1)))"
    by (simp add: EmailSender_init_def load_config_def negative_delay_world_def
        example_world_def fresh_sender_def)
  moreover have "fst (send_emails_from_csv negative_delay_world ''emails.csv'' (fresh_sender (full_config (- 1)))) = None" by code_simp
  moreover have "total (stats (snd (send_emails_from_csv negative_delay_world ''emails.csv'' (fresh_sender (full_config (- 1)))))) = 2" by code_simp
  moreover have "sent (stats (snd (send_emails_from_csv negative_delay_world ''emails.csv'' (fresh_sender (full_config (- 1)))))) + failed (stats (snd (send_emails_from_csv negative_delay_world ''emails.csv'' (fresh_sender (full_config (- 1)))))) = 1" by code_simp
  ultimately show ?thesis by blast
qed

section \<open>The delays of a run (C9)\<close>

text \<open>
  C9, as the code has it. When \<open>send_emails_from_csv\<close> returns, it has suspended once
  after each dispatched recipient except the last one dispatched, each time for
  \<open>delay_seconds\<close>, whether the sends succeeded or failed. With N valid recipients
  that is N - 1 suspensions when \<open>time.sleep\<close> accepts the delay, none when N is at
  most 1, and fewer than N - 1 when \<open>time.sleep\<close> raises, which ends the loop.
\<close>

theorem delays_between_dispatched_recipients:
  assumes run: "send_emails_from_csv w csv_file st = (None, st')"
    and delay: "config_get (config st) ''delay_seconds'' = Inr d"
  shows "(\<exists>m. m \<le> length (fst (read_emails_from_csv w csv_file st))
            \<and> sent (stats st') + failed (stats st')
                = sent (stats st) + failed (stats st) + int m
            \<and> sleeps st' = sleeps st @ replicate (m - 1) d)
     \<and> (length (fst (read_emails_from_csv w csv_file st)) \<le> 1 \<longrightarrow> sleeps st' = sleeps st)
     \<and> (time_sleep w d = None \<longrightarrow>
          sleeps st' = sleeps st
            @ replicate (length (fst (read_emails_from_csv w csv_file st)) - 1) d)"
proof -
  let ?N = "length (fst (read_emails_from_csv w csv_file st))"
  from send_emails_effect [OF run delay] obtain m r where
    m: "loop_count w d (fst (read_emails_from_csv w csv_file st)) r st st' m"
    by blast
  from m have le: "m \<le> ?N"
    and cnt: "sent (stats st') + failed (stats st') = sent (stats st) + failed (stats st) + int m"
    and sl: "sleeps st' = sleeps st @ replicate (m - 1) d"
    and ok: "time_sleep w d = None \<longrightarrow> m = ?N"
    by (auto simp: loop_count_def)
  from le sl have small: "?N \<le> 1 \<longrightarrow> sleeps st' = sleeps st" by auto
  from ok sl have full: "time_sleep w d = None \<longrightarrow> sleeps st' = sleeps st @ replicate (?N - 1) d"
    by auto
  from le cnt sl small full show ?thesis by blast
qed

theorem delays_between_dispatched_recipients_witness:
  "fst (send_emails_from_csv scenario_world ''emails.csv'' (fresh_sender (full_config 90))) = None
   \<and> config_get (config (fresh_sender (full_config 90))) ''delay_seconds'' = Inr (JInt 90)
   \<and> time_sleep scenario_world (JInt 90) = None
   \<and> length (fst (read_emails_from_csv scenario_world ''emails.csv''
        (fresh_sender (full_config 90)))) = 2
   \<and> sleeps (snd (send_emails_from_csv scenario_world ''emails.csv'' (fresh_sender (full_config 90)))) = [JInt 90]
   \<and> sleeps (snd (send_emails_from_csv scenario_world ''emails.csv'' (fresh_sender (full_config 90)))) = sleeps (fresh_sender (full_config 90))
        @ replicate (length (fst (read_emails_from_csv scenario_world ''emails.csv''
            (fresh_sender (full_config 90)))) - 1) (JInt 90)"
proof -
  have r: "fst (send_emails_from_csv scenario_world ''emails.csv'' (fresh_sender (full_config 90))) = None" by code_simp
  then have run: "send_emails_from_csv scenario_world ''emails.csv'' (fresh_sender (full_config 90)) = (None, snd (send_emails_from_csv scenario_world ''emails.csv'' (fresh_sender (full_config 90))))" by (metis prod.collapse)
  have d: "config_get (config (fresh_sender (full_config 90))) ''delay_seconds'' = Inr (JInt 90)"
    by code_simp
  have ok: "time_sleep scenario_world (JInt 90) = None" by code_simp
  have n: "length (fst (read_emails_from_csv scenario_world ''emails.csv''
        (fresh_sender (full_config 90)))) = 2"
    by code_simp
  have s: "sleeps (snd (send_emails_from_csv scenario_world ''emails.csv'' (fresh_sender (full_config 90)))) = [JInt 90]" by code_simp
  from delays_between_dispatched_recipients [OF run d] ok
  have "sleeps (snd (send_emails_from_csv scenario_world ''emails.csv'' (fresh_sender (full_config 90)))) = sleeps (fresh_sender (full_config 90))
        @ replicate (length (fst (read_emails_from_csv scenario_world ''emails.csv''
            (fresh_sender (full_config 90)))) - 1) (JInt 90)"
    by blast
  with r d ok n s show ?thesis by blast
qed

text \<open>
  C9 as stated fails: with \<open>delay_seconds\<close> set to -1 and two valid recipients, the run
  performs no suspension at all, not one.
\<close>

theorem rejected_delay_gives_no_suspension:
  "length (fst (read_emails_from_csv negative_delay_world ''emails.csv''
      (fresh_sender (full_config (- 1))))) = 2
   \<and> fst (send_emails_from_csv negative_delay_world ''emails.csv'' (fresh_sender (full_config (- 1)))) = None
   \<and> sleeps (snd (send_emails_from_csv negative_delay_world ''emails.csv'' (fresh_sender (full_config (- 1))))) = []"
proof -
  have "length (fst (read_emails_from_csv negative_delay_world ''emails.csv''
      (fresh_sender (full_config (- 1))))) = 2"
    by code_simp
  moreover have "fst (send_emails_from_csv negative_delay_world ''emails.csv'' (fresh_sender (full_config (- 1)))) = None" by code_simp
  moreover have "sleeps (snd (send_emails_from_csv negative_delay_world ''emails.csv'' (fresh_sender (full_config (- 1))))) = []" by code_simp
  ultimately show ?thesis by blast
qed

section \<open>A connection that cannot be established (C5)\<close>

text \<open>
  C5 does not hold of the code. \<open>smtplib.SMTP(host, port)\<close> is called before the inner
  \<open>try\<close>, so an exception of the connection never reaches the handler that logs
  "Connection Error": the outer handler logs the text of the exception. The recipient
  is counted as failed, as the claim says.
\<close>

theorem connection_failure_logged_with_exception_text:
  "fst (send_single_email refusing_world ''a@b.com'' (fresh_sender (full_config 90))) = False
   \<and> logged (snd (send_single_email refusing_world ''a@b.com'' (fresh_sender (full_config 90))))
       = [EmailStatus ''a@b.com'' ''FAILED'' ''(421, b'Service not available')'']
   \<and> failed (stats (snd (send_single_email refusing_world ''a@b.com''
        (fresh_sender (full_config 90))))) = 1"
proof -
  have "fst (send_single_email refusing_world ''a@b.com'' (fresh_sender (full_config 90))) = False"
    by code_simp
  moreover have
    "logged (snd (send_single_email refusing_world ''a@b.com'' (fresh_sender (full_config 90))))
       = [EmailStatus ''a@b.com'' ''FAILED'' ''(421, b'Service not available')'']"
    by code_simp
  moreover have "failed (stats (snd (send_single_email refusing_world ''a@b.com''
        (fresh_sender (full_config 90))))) = 1"
    by code_simp
  ultimately show ?thesis by blast
qed

end
